theory Spec2Isabelle
  imports Main "HOL-Library.Sublist"
begin

section \<open>The speech-to-text page: data model\<close>

text \<open>
  The file \<^verbatim>\<open>src/app/page.tsx\<close> holds two React components: \<^verbatim>\<open>SpeechToLetter\<close>
  (lines 19-132) and \<^verbatim>\<open>SpeechToText\<close> (lines 198-367). The session manager with the
  start guard is \<^verbatim>\<open>SpeechToText\<close>; its state, refs and handlers are embedded below with
  explicit state passing. Of \<^verbatim>\<open>SpeechToLetter\<close> the result handler is embedded too, since
  it aggregates the transcript in a different way.
\<close>

text \<open>The union type \<^verbatim>\<open>'en-US' | 'es-ES'\<close> of the \<^verbatim>\<open>language\<close> state.\<close>

datatype lang_tag = EnUS | EsES

text \<open>
  One \<^verbatim>\<open>SpeechRecognitionResult\<close>: its \<^verbatim>\<open>isFinal\<close> flag and the transcript of its first
  alternative, \<^verbatim>\<open>result[0].transcript\<close>, the only alternative the handlers read.
\<close>

record SpeechRecognitionResult =
  isFinal :: bool
  transcript :: string

record SpeechRecognitionEvent =
  resultIndex :: nat
  results :: "SpeechRecognitionResult list"

subsection \<open>The recognition engine\<close>

text \<open>
  The browser's recognition capability is not part of the repository. It is kept as an
  explicit value that the handlers pass along: whether a constructor exists on
  \<^verbatim>\<open>window\<close>, every instance constructed so far (an instance is identified by its
  position), and whether \<^verbatim>\<open>stop()\<close> on an instance that is not running raises. The
  theorems below quantify over every such engine.
\<close>

record recognition =
  continuous :: bool
  interimResults :: bool
  lang :: lang_tag
  running :: bool

record engine =
  supported :: bool
  stop_raises :: bool
  instances :: "recognition list"

datatype js_error = InvalidStateError | TypeError

definition set_running :: "nat \<Rightarrow> bool \<Rightarrow> recognition list \<Rightarrow> recognition list" where
  "set_running h b rs = (if h < length rs then rs[h := (rs ! h)\<lparr>running := b\<rparr>] else rs)"

definition is_running :: "nat \<Rightarrow> engine \<Rightarrow> bool" where
  "is_running h e = (h < length (instances e) \<and> running (instances e ! h))"

text \<open>
  \<^verbatim>\<open>new SpeechRecognition()\<close> followed by the three assignments of lines 235-238:
  the new instance is continuous, reports interim results and has the given language.
\<close>

definition construct :: "lang_tag \<Rightarrow> engine \<Rightarrow> nat \<times> engine" where
  "construct l e =
     (length (instances e),
      e\<lparr>instances := instances e @
           [\<lparr>continuous = True, interimResults = True, lang = l, running = False\<rparr>]\<rparr>)"

text \<open>\<^verbatim>\<open>start()\<close> raises on an instance that is already running.\<close>

definition engine_start :: "nat \<Rightarrow> engine \<Rightarrow> js_error + engine" where
  "engine_start h e =
     (if is_running h e then Inl InvalidStateError
      else Inr (e\<lparr>instances := set_running h True (instances e)\<rparr>))"

definition engine_stop :: "nat \<Rightarrow> engine \<Rightarrow> js_error + engine" where
  "engine_stop h e =
     (if stop_raises e \<and> \<not> is_running h e then Inl InvalidStateError
      else Inr (e\<lparr>instances := set_running h False (instances e)\<rparr>))"

subsection \<open>Component state\<close>

text \<open>
  What a handler closes over: the values of \<^verbatim>\<open>isListening\<close> and \<^verbatim>\<open>language\<close> of the
  render that created it. A handler that awaits keeps reading these captured values after
  the delay, whatever the state has become.
\<close>

record render =
  r_isListening :: bool
  r_language :: lang_tag

text \<open>The part of an async handler that runs after its \<^verbatim>\<open>setTimeout\<close> delay.\<close>

datatype continuation = ToggleResume | LanguageResume render

datatype notice = Alert_unsupported | Console_engine_error | Console_toggle_error
  | Console_language_error

text \<open>
  The \<^verbatim>\<open>useState\<close> values, the three \<^verbatim>\<open>useRef\<close> cells, the engine, what was reported
  with \<^verbatim>\<open>alert\<close> and \<^verbatim>\<open>console.error\<close>, and the delays that have not elapsed yet.
\<close>

record state =
  isListening :: bool
  spokenText :: string
  interimText :: string
  language :: lang_tag
  recognitionRef :: "nat option"
  isInitializedRef :: bool
  isStartingRef :: bool
  eng :: engine
  notices :: "notice list"
  timers :: "continuation list"

definition render_of :: "state \<Rightarrow> render" where
  "render_of s = \<lparr>r_isListening = isListening s, r_language = language s\<rparr>"

section \<open>Transcript aggregation\<close>

text \<open>\<^verbatim>\<open>Array.prototype.join\<close> on an array of strings.\<close>

fun join :: "string \<Rightarrow> string list \<Rightarrow> string" where
  "join sep [] = []"
| "join sep [x] = x"
| "join sep (x # y # ys) = x @ sep @ join sep (y # ys)"

definition final_text :: "SpeechRecognitionResult list \<Rightarrow> string" where
  "final_text rs = join '' '' (map transcript (filter isFinal rs))"

definition interim_text :: "SpeechRecognitionResult list \<Rightarrow> string" where
  "interim_text rs = join [] (map transcript (filter (\<lambda>r. \<not> isFinal r) rs))"

text \<open>
  \<^verbatim>\<open>recognition.onresult\<close> of \<^verbatim>\<open>SpeechToText\<close> (lines 240-258). It reads the whole of
  \<^verbatim>\<open>event.results\<close>; \<^verbatim>\<open>if (final)\<close> tests that the joined string is not empty.
\<close>

definition onresult :: "SpeechRecognitionEvent \<Rightarrow> state \<Rightarrow> state" where
  "onresult event s =
     (let final = final_text (results event);
          interim = interim_text (results event)
      in if final \<noteq> []
         then s\<lparr>spokenText := spokenText s @ final @ '' '', interimText := []\<rparr>
         else s\<lparr>interimText := interim\<rparr>)"

text \<open>
  \<^verbatim>\<open>recognition.onresult\<close> of \<^verbatim>\<open>SpeechToLetter\<close> (lines 40-59): a loop from
  \<^verbatim>\<open>event.resultIndex\<close> that appends a space after every final transcript. The pair is
  \<^verbatim>\<open>(final, interim)\<close>; the handler then updates \<^verbatim>\<open>(spokenText, interimText)\<close>.
\<close>

function letter_loop ::
  "SpeechRecognitionResult list \<Rightarrow> nat \<Rightarrow> string \<times> string \<Rightarrow> string \<times> string" where
  "letter_loop rs i (final, interim) =
     (if i < length rs
      then (if isFinal (rs ! i)
            then letter_loop rs (Suc i) (final @ transcript (rs ! i) @ '' '', interim)
            else letter_loop rs (Suc i) (final, interim @ transcript (rs ! i)))
      else (final, interim))"
  by pat_completeness auto
termination
  by (relation "measure (\<lambda>(rs, i, acc). length rs - i)") auto

declare letter_loop.simps [simp del]

definition letter_onresult :: "SpeechRecognitionEvent \<Rightarrow> string \<times> string \<Rightarrow> string \<times> string" where
  "letter_onresult event st =
     (case letter_loop (results event) (resultIndex event) ([], []) of
        (final, interim) \<Rightarrow>
          if final \<noteq> [] then (fst st @ final, []) else (fst st, interim))"

section \<open>Engine binding\<close>

text \<open>
  \<^verbatim>\<open>stopRecognition\<close> (lines 210-220). The \<^verbatim>\<open>try\<close>/\<^verbatim>\<open>catch\<close> around \<^verbatim>\<open>stop()\<close> has
  an empty handler: when the call raises, the engine is as it was.
\<close>

definition stopRecognition :: "state \<Rightarrow> state" where
  "stopRecognition s =
     (case recognitionRef s of
        None \<Rightarrow> s
      | Some h \<Rightarrow>
          (let e = (case engine_stop h (eng s) of Inl err \<Rightarrow> eng s | Inr e' \<Rightarrow> e')
           in s\<lparr>eng := e, isInitializedRef := False, isListening := False\<rparr>))"

text \<open>
  \<^verbatim>\<open>initializeRecognition\<close> (lines 225-275), run in the closure of render \<open>r\<close>:
  the new instance gets the language that render captured.
\<close>

definition initializeRecognition :: "render \<Rightarrow> state \<Rightarrow> state" where
  "initializeRecognition r s =
     (if \<not> supported (eng s) then s\<lparr>notices := notices s @ [Alert_unsupported]\<rparr>
      else (let s1 = stopRecognition s
            in case construct (r_language r) (eng s1) of
                 (h, e) \<Rightarrow> s1\<lparr>eng := e, recognitionRef := Some h, isInitializedRef := True\<rparr>))"

text \<open>\<^verbatim>\<open>recognition.onend\<close> (lines 260-264) and \<^verbatim>\<open>recognition.onerror\<close> (lines 266-271).\<close>

definition onend :: "state \<Rightarrow> state" where
  "onend s = s\<lparr>isStartingRef := False, isListening := False, isInitializedRef := False\<rparr>"

definition onerror :: "state \<Rightarrow> state" where
  "onerror s =
     s\<lparr>notices := notices s @ [Console_engine_error],
       isStartingRef := False, isListening := False, isInitializedRef := False\<rparr>"

section \<open>Session control\<close>

text \<open>The \<^verbatim>\<open>catch\<close> blocks of lines 303-308 and 328-333.\<close>

definition toggle_catch :: "state \<Rightarrow> state" where
  "toggle_catch s =
     s\<lparr>notices := notices s @ [Console_toggle_error],
       isStartingRef := False, isListening := False, isInitializedRef := False\<rparr>"

definition language_catch :: "state \<Rightarrow> state" where
  "language_catch s =
     s\<lparr>notices := notices s @ [Console_language_error],
       isStartingRef := False, isListening := False, isInitializedRef := False\<rparr>"

text \<open>
  \<^verbatim>\<open>recognitionRef.current.start()\<close>: reading \<^verbatim>\<open>start\<close> of \<^verbatim>\<open>null\<close> raises a
  \<^verbatim>\<open>TypeError\<close>, and the engine may raise on its own.
\<close>

definition start_current :: "state \<Rightarrow> js_error + state" where
  "start_current s =
     (case recognitionRef s of
        None \<Rightarrow> Inl TypeError
      | Some h \<Rightarrow> (case engine_start h (eng s) of
                     Inl err \<Rightarrow> Inl err
                   | Inr e \<Rightarrow> Inr (s\<lparr>eng := e\<rparr>)))"

text \<open>
  \<^verbatim>\<open>toggleListening\<close> (lines 287-309) up to its \<^verbatim>\<open>await\<close>, in the closure of render
  \<open>r\<close>. In the start branch the delay is scheduled and the rest of the body waits in
  \<open>timers\<close>. Nothing in this part raises.
\<close>

definition toggleListening_begin :: "render \<Rightarrow> state \<Rightarrow> state" where
  "toggleListening_begin r s =
     (if recognitionRef s = None \<or> isStartingRef s then s
      else if \<not> r_isListening r
      then (let s1 = s\<lparr>isStartingRef := True\<rparr>;
                s2 = (if \<not> isInitializedRef s1 then initializeRecognition r s1 else s1)
            in s2\<lparr>timers := timers s2 @ [ToggleResume]\<rparr>)
      else stopRecognition s)"

text \<open>The rest of \<^verbatim>\<open>toggleListening\<close>, after the delay of 100 ms (lines 298-299).\<close>

definition toggleListening_resume :: "state \<Rightarrow> state" where
  "toggleListening_resume s =
     (case start_current s of
        Inl err \<Rightarrow> toggle_catch s
      | Inr s1 \<Rightarrow> s1\<lparr>isListening := True\<rparr>)"

text \<open>
  \<^verbatim>\<open>handleLanguageChange\<close> (lines 314-335) up to its \<^verbatim>\<open>await\<close>, in the closure of
  render \<open>r\<close>. The continuation keeps \<open>r\<close>: after the delay the handler still reads the
  \<^verbatim>\<open>isListening\<close> and the \<^verbatim>\<open>language\<close> it captured.
\<close>

definition handleLanguageChange_begin :: "render \<Rightarrow> lang_tag \<Rightarrow> state \<Rightarrow> state" where
  "handleLanguageChange_begin r newLang s =
     (let s0 = s\<lparr>language := newLang\<rparr>
      in if r_isListening r \<and> recognitionRef s0 \<noteq> None
         then (let s1 = stopRecognition s0
               in s1\<lparr>timers := timers s1 @ [LanguageResume r]\<rparr>)
         else s0)"

text \<open>The rest of \<^verbatim>\<open>handleLanguageChange\<close>, after the delay of 300 ms (lines 323-327).\<close>

definition handleLanguageChange_resume :: "render \<Rightarrow> state \<Rightarrow> state" where
  "handleLanguageChange_resume r s =
     (let s1 = initializeRecognition r s
      in if r_isListening r
         then (let s2 = s1\<lparr>isStartingRef := True\<rparr>
               in case start_current s2 of
                    Inl err \<Rightarrow> language_catch s2
                  | Inr s3 \<Rightarrow> s3)
         else s1)"

text \<open>
  The effect of lines 277-282 when \<^verbatim>\<open>language\<close> has changed: the cleanup of the
  previous render, then \<^verbatim>\<open>initializeRecognition\<close> of the new render \<open>r\<close>.
\<close>

definition language_effect :: "render \<Rightarrow> state \<Rightarrow> state" where
  "language_effect r s = initializeRecognition r (stopRecognition s)"

text \<open>The state of the first render (lines 199-205) and the effect on mount.\<close>

definition initial_state :: "engine \<Rightarrow> state" where
  "initial_state e =
     \<lparr>isListening = False, spokenText = [], interimText = [], language = EnUS,
      recognitionRef = None, isInitializedRef = False, isStartingRef = False,
      eng = e, notices = [], timers = []\<rparr>"

definition mount :: "engine \<Rightarrow> state" where
  "mount e = initializeRecognition (render_of (initial_state e)) (initial_state e)"

section \<open>The event loop\<close>

text \<open>
  Everything that can happen to a mounted component, one callback at a time: an engine
  event, a click on the button, a choice in the language selector, an elapsed delay, the
  unmount. A user event runs the handler of the current render. After a language choice
  React renders again and, when the language differs, runs the effect before the next
  event. \<open>EngineEnd h\<close> is instance \<open>h\<close> ending, whoever stopped it.
\<close>

datatype event =
    EngineResult SpeechRecognitionEvent
  | EngineEnd nat
  | EngineError
  | ClickToggle
  | SelectLanguage lang_tag
  | TimerElapsed nat
  | Unmount

fun run_continuation :: "continuation \<Rightarrow> state \<Rightarrow> state" where
  "run_continuation ToggleResume s = toggleListening_resume s"
| "run_continuation (LanguageResume r) s = handleLanguageChange_resume r s"

definition select_language :: "lang_tag \<Rightarrow> state \<Rightarrow> state" where
  "select_language l s =
     (let s1 = handleLanguageChange_begin (render_of s) l s
      in if language s1 \<noteq> language s then language_effect (render_of s1) s1 else s1)"

definition timer_elapsed :: "nat \<Rightarrow> state \<Rightarrow> state" where
  "timer_elapsed n s =
     (if n < length (timers s)
      then run_continuation (timers s ! n) (s\<lparr>timers := take n (timers s) @ drop (Suc n) (timers s)\<rparr>)
      else s)"

fun step :: "event \<Rightarrow> state \<Rightarrow> state" where
  "step (EngineResult event) s = onresult event s"
| "step (EngineEnd h) s =
     onend (s\<lparr>eng := (eng s)\<lparr>instances := set_running h False (instances (eng s))\<rparr>\<rparr>)"
| "step EngineError s = onerror s"
| "step ClickToggle s = toggleListening_begin (render_of s) s"
| "step (SelectLanguage l) s = select_language l s"
| "step (TimerElapsed n) s = timer_elapsed n s"
| "step Unmount s = stopRecognition s"

fun run :: "event list \<Rightarrow> state \<Rightarrow> state" where
  "run [] s = s"
| "run (ev # evs) s = run evs (step ev s)"

section \<open>Statements to compare the code with\<close>

text \<open>
  The committed transcript as the specification words it: every batch with a final result
  contributes its final transcripts joined by one space, then one more space; a batch with
  interim results only contributes nothing.
\<close>

definition spec_contribution :: "SpeechRecognitionResult list \<Rightarrow> string" where
  "spec_contribution rs =
     (if filter isFinal rs = [] then []
      else join '' '' (map transcript (filter isFinal rs)) @ '' '')"

definition spec_committed :: "string \<Rightarrow> SpeechRecognitionEvent list \<Rightarrow> string" where
  "spec_committed c evs = c @ concat (map (\<lambda>ev. spec_contribution (results ev)) evs)"

text \<open>
  The preview as the specification words it: empty when the batch has a final result,
  otherwise the interim transcripts one after the other.
\<close>

definition spec_preview :: "SpeechRecognitionResult list \<Rightarrow> string" where
  "spec_preview rs =
     (if filter isFinal rs \<noteq> [] then []
      else concat (map transcript (filter (\<lambda>r. \<not> isFinal r) rs)))"

text \<open>What a batch adds to \<^verbatim>\<open>spokenText\<close> in the code: the test is on the joined text.\<close>

definition contribution :: "SpeechRecognitionResult list \<Rightarrow> string" where
  "contribution rs = (if final_text rs = [] then [] else final_text rs @ '' '')"

fun event_contribution :: "event \<Rightarrow> string" where
  "event_contribution (EngineResult ev) = contribution (results ev)"
| "event_contribution _ = []"

definition committed_separated :: "state \<Rightarrow> bool" where
  "committed_separated s = (spokenText s = [] \<or> last (spokenText s) = CHR '' '')"

text \<open>Concrete inputs: an engine that exists and raises on a needless \<^verbatim>\<open>stop()\<close>.\<close>

definition demo_engine :: engine where
  "demo_engine = \<lparr>supported = True, stop_raises = True, instances = []\<rparr>"

definition empty_final_event :: SpeechRecognitionEvent where
  "empty_final_event =
     \<lparr>resultIndex = 0, results = [\<lparr>isFinal = True, transcript = []\<rparr>]\<rparr>"

definition empty_final_then_interim :: SpeechRecognitionEvent where
  "empty_final_then_interim =
     \<lparr>resultIndex = 0,
      results = [\<lparr>isFinal = True, transcript = []\<rparr>, \<lparr>isFinal = False, transcript = ''a''\<rparr>]\<rparr>"

definition hello_event :: SpeechRecognitionEvent where
  "hello_event =
     \<lparr>resultIndex = 0, results = [\<lparr>isFinal = True, transcript = ''hello''\<rparr>]\<rparr>"

definition wor_event :: SpeechRecognitionEvent where
  "wor_event =
     \<lparr>resultIndex = 0, results = [\<lparr>isFinal = False, transcript = ''wor''\<rparr>]\<rparr>"

definition unsupported_engine :: engine where
  "unsupported_engine = \<lparr>supported = False, stop_raises = False, instances = []\<rparr>"

text \<open>The mounted component after one click and the elapsed delay of 100 ms.\<close>

definition listening_demo :: state where
  "listening_demo = run [ClickToggle, TimerElapsed 0] (mount demo_engine)"

text \<open>
  The language change while listening as the specification words it: the session ends
  listening with the new language, the preview cleared and the committed transcript kept.
\<close>

definition spec_language_switch :: "lang_tag \<Rightarrow> state \<Rightarrow> state \<Rightarrow> bool" where
  "spec_language_switch l s s' =
     (isListening s' \<and> language s' = l \<and> interimText s' = [] \<and> spokenText s' = spokenText s)"

text \<open>A listening session that shows the interim text \<^verbatim>\<open>wor\<close>.\<close>

definition listening_wor :: state where
  "listening_wor = step (EngineResult wor_event) listening_demo"

text \<open>Whether the instance in \<^verbatim>\<open>recognitionRef\<close> is running in the engine.\<close>

definition current_running :: "state \<Rightarrow> bool" where
  "current_running s =
     (case recognitionRef s of None \<Rightarrow> False | Some h \<Rightarrow> is_running h (eng s))"

text \<open>
  The instance in \<^verbatim>\<open>recognitionRef\<close> exists in the engine, has language \<open>l\<close> and is
  not running (\<open>bound_idle\<close>) or is running (\<open>started_on\<close>).
\<close>

definition bound_idle :: "lang_tag \<Rightarrow> state \<Rightarrow> bool" where
  "bound_idle l s =
     (case recognitionRef s of
        None \<Rightarrow> False
      | Some h \<Rightarrow> h < length (instances (eng s)) \<and> lang (instances (eng s) ! h) = l \<and>
                  \<not> running (instances (eng s) ! h))"

definition started_on :: "lang_tag \<Rightarrow> state \<Rightarrow> bool" where
  "started_on l s =
     (case recognitionRef s of
        None \<Rightarrow> False
      | Some h \<Rightarrow> h < length (instances (eng s)) \<and> lang (instances (eng s) ! h) = l \<and>
                  running (instances (eng s) ! h))"

text \<open>
  What holds in every state the component can reach, used to relate the handle to the
  language: a pending language continuation was created by a listening render, and whenever
  the session is initialized, not starting and not listening, its handle is bound to the
  current language and idle.
\<close>

fun captured_listening :: "continuation \<Rightarrow> bool" where
  "captured_listening ToggleResume = True"
| "captured_listening (LanguageResume r) = r_isListening r"

definition session_inv :: "state \<Rightarrow> bool" where
  "session_inv s =
     (list_all captured_listening (timers s) \<and>
      (isInitializedRef s \<and> \<not> isStartingRef s \<and> \<not> isListening s \<longrightarrow>
         bound_idle (language s) s))"

section \<open>The committed transcript\<close>

lemma join_empty_sep: "join [] xs = concat xs"
  by (induction xs rule: induct_list012) auto

lemma join_trailing: "xs \<noteq> [] \<Longrightarrow> join sep xs @ sep = concat (map (\<lambda>x. x @ sep) xs)"
  by (induction xs rule: induct_list012) auto

lemma spokenText_stopRecognition: "spokenText (stopRecognition s) = spokenText s"
  by (simp add: stopRecognition_def Let_def split: option.splits)

lemma interimText_stopRecognition: "interimText (stopRecognition s) = interimText s"
  by (simp add: stopRecognition_def Let_def split: option.splits)

lemma spokenText_initializeRecognition: "spokenText (initializeRecognition r s) = spokenText s"
  by (simp add: initializeRecognition_def Let_def spokenText_stopRecognition split: prod.splits)

lemma interimText_initializeRecognition: "interimText (initializeRecognition r s) = interimText s"
  by (simp add: initializeRecognition_def Let_def interimText_stopRecognition split: prod.splits)

lemma start_current_texts:
  "start_current s = Inr s' \<Longrightarrow> spokenText s' = spokenText s \<and> interimText s' = interimText s"
  by (auto simp: start_current_def split: option.splits sum.splits)

lemma spokenText_toggle_begin: "spokenText (toggleListening_begin r s) = spokenText s"
  by (simp add: toggleListening_begin_def Let_def spokenText_stopRecognition
      spokenText_initializeRecognition)

lemma spokenText_toggle_resume: "spokenText (toggleListening_resume s) = spokenText s"
  by (auto simp: toggleListening_resume_def toggle_catch_def dest: start_current_texts
      split: sum.splits)

lemma spokenText_language_begin: "spokenText (handleLanguageChange_begin r l s) = spokenText s"
  by (simp add: handleLanguageChange_begin_def Let_def spokenText_stopRecognition)

lemma spokenText_language_resume: "spokenText (handleLanguageChange_resume r s) = spokenText s"
  by (auto simp: handleLanguageChange_resume_def language_catch_def Let_def
      spokenText_initializeRecognition dest!: start_current_texts split: sum.splits)

lemma spokenText_select_language: "spokenText (select_language l s) = spokenText s"
  by (simp add: select_language_def Let_def language_effect_def spokenText_initializeRecognition
      spokenText_stopRecognition spokenText_language_begin)

lemma spokenText_timer_elapsed: "spokenText (timer_elapsed n s) = spokenText s"
proof (cases "n < length (timers s)")
  case True
  then show ?thesis
    by (cases "timers s ! n")
       (simp_all add: timer_elapsed_def spokenText_toggle_resume spokenText_language_resume)
next
  case False
  then show ?thesis by (simp add: timer_elapsed_def)
qed

lemma spokenText_onresult:
  "spokenText (onresult ev s) = spokenText s @ contribution (results ev)"
  by (simp add: onresult_def contribution_def Let_def)

lemma spokenText_step: "spokenText (step ev s) = spokenText s @ event_contribution ev"
  by (cases ev)
     (simp_all add: spokenText_onresult onend_def onerror_def spokenText_toggle_begin
        spokenText_select_language spokenText_timer_elapsed spokenText_stopRecognition)

lemma spokenText_run:
  "spokenText (run evs s) = spokenText s @ concat (map event_contribution evs)"
  by (induction evs arbitrary: s) (simp_all add: spokenText_step)

lemma spokenText_mount: "spokenText (mount e) = []"
  by (simp add: mount_def initial_state_def spokenText_initializeRecognition)

text \<open>
  Where the code and the specification's wording agree: on every batch that has no final
  result with an empty transcript standing alone.
\<close>

lemma contribution_eq_spec:
  "final_text rs \<noteq> [] \<or> filter isFinal rs = [] \<Longrightarrow> contribution rs = spec_contribution rs"
  by (auto simp: contribution_def spec_contribution_def final_text_def)

text \<open>
  The loop of \<^verbatim>\<open>SpeechToLetter\<close> puts the space after each final transcript, so its
  \<^verbatim>\<open>final\<close> is empty only when the batch, read from \<^verbatim>\<open>resultIndex\<close>, has no final
  result: that handler does what the specification words.
\<close>

lemma letter_loop_eq:
  "letter_loop rs i (final, interim) =
     (final @ concat (map (\<lambda>r. transcript r @ '' '') (filter isFinal (drop i rs))),
      interim @ concat (map transcript (filter (\<lambda>r. \<not> isFinal r) (drop i rs))))"
proof (induction "length rs - i" arbitrary: i final interim)
  case 0
  then show ?case
    by (subst letter_loop.simps) simp
next
  case (Suc k)
  then have lt: "i < length rs" and k: "k = length rs - Suc i"
    by simp_all
  have d: "drop i rs = rs ! i # drop (Suc i) rs"
    using lt by (simp add: Cons_nth_drop_Suc)
  show ?case
    by (subst letter_loop.simps) (simp add: lt d Suc.hyps(1) [OF k])
qed

lemma letter_onresult_committed:
  "fst (letter_onresult ev (c, p)) = c @ spec_contribution (drop (resultIndex ev) (results ev))"
proof (cases "filter isFinal (drop (resultIndex ev) (results ev))")
  case Nil
  then show ?thesis
    by (simp add: letter_onresult_def letter_loop_eq spec_contribution_def)
next
  case (Cons r rs')
  then have "join '' '' (map transcript (filter isFinal (drop (resultIndex ev) (results ev)))) @ '' ''
      = concat (map (\<lambda>x. x @ '' '') (map transcript (filter isFinal (drop (resultIndex ev) (results ev)))))"
    by (intro join_trailing) simp
  with Cons show ?thesis
    by (simp add: letter_onresult_def letter_loop_eq spec_contribution_def comp_def)
qed

lemma letter_onresult_preview:
  "snd (letter_onresult ev (c, p)) = spec_preview (drop (resultIndex ev) (results ev))"
  by (cases "filter isFinal (drop (resultIndex ev) (results ev))")
     (simp_all add: letter_onresult_def letter_loop_eq spec_preview_def)

text \<open>
  The batch of one final result whose transcript is empty: the joined text is empty, so
  \<^verbatim>\<open>if (final)\<close> takes the interim branch and nothing is appended, where the
  specification's wording appends the separator.
\<close>

theorem committed_empty_final_counterexample:
  "spokenText (run [EngineResult empty_final_event] (mount demo_engine))
     \<noteq> spec_committed (spokenText (mount demo_engine)) [empty_final_event]"
  by (simp add: spokenText_onresult spokenText_mount spec_committed_def spec_contribution_def
      contribution_def final_text_def empty_final_event_def)

text \<open>
  Claim C1, as amended. After any sequence of events, of any kind and in any order, the
  committed transcript is what it was, followed by the contributions of the result batches
  in delivery order and by nothing else: no other operation changes it. A batch
  contributes its final transcripts joined by one space and one trailing space when that
  joined text is not empty; it contributes nothing when the joined text is empty, which is
  a batch with no final result or with one final result whose transcript is empty.
\<close>

theorem committed_is_concatenation_of_contributions:
  "spokenText (run evs s) = spokenText s @ concat (map event_contribution evs)"
  by (rule spokenText_run)

text \<open>
  Claim C7. For every operation (a result batch, an engine end or error, the toggle, a
  language choice, an elapsed delay with the continuation it runs, the stop on unmount)
  the committed transcript before it is a prefix of the committed transcript after it, and
  so it is over any sequence of operations.
\<close>

theorem committed_only_grows:
  "prefix (spokenText s) (spokenText (step ev s)) \<and> prefix (spokenText s) (spokenText (run evs s))"
  by (simp add: spokenText_step spokenText_run)

lemma contribution_ends_with_space:
  "contribution rs = [] \<or> last (contribution rs) = CHR '' ''"
  by (simp add: contribution_def)

lemma event_contribution_ends_with_space:
  "event_contribution ev = [] \<or> last (event_contribution ev) = CHR '' ''"
  using contribution_ends_with_space by (cases ev) simp_all

text \<open>
  Claim C9. The committed transcript is empty or ends with the space separator: this holds
  when the component is mounted and every operation keeps it. Every append ends with the
  one separator the handler adds after the joined text.
\<close>

theorem committed_empty_or_ends_with_separator:
  "committed_separated (mount e) \<and>
   (committed_separated s \<longrightarrow> committed_separated (step ev s))"
  using event_contribution_ends_with_space [of ev]
  by (auto simp: committed_separated_def spokenText_mount spokenText_step last_append)

theorem committed_empty_or_ends_with_separator_witness:
  "committed_separated (mount demo_engine) \<and>
   committed_separated (step (EngineResult hello_event) (mount demo_engine)) \<and>
   spokenText (step (EngineResult hello_event) (mount demo_engine)) = ''hello ''"
  using committed_empty_or_ends_with_separator [of demo_engine "mount demo_engine" "EngineResult hello_event"]
  by (simp add: spokenText_onresult spokenText_mount contribution_def final_text_def hello_event_def)

section \<open>The preview\<close>

lemma interimText_onresult:
  "interimText (onresult ev s) =
     (if final_text (results ev) = []
      then concat (map transcript (filter (\<lambda>r. \<not> isFinal r) (results ev)))
      else [])"
  by (simp add: onresult_def Let_def interim_text_def join_empty_sep)

text \<open>
  A batch with one final result whose transcript is empty and one interim result: the
  joined final text is empty, so the handler takes the interim branch and shows the interim
  text, where the specification's wording clears the preview.
\<close>

theorem preview_empty_final_counterexample:
  "interimText (onresult empty_final_then_interim (mount demo_engine))
     \<noteq> spec_preview (results empty_final_then_interim)"
  by (simp add: interimText_onresult spec_preview_def final_text_def empty_final_then_interim_def)

text \<open>
  Claim C2, as amended. After the handler has processed a batch, the preview is empty when
  the joined text of the batch's final results is not empty; otherwise it is the
  transcripts of the batch's interim results, in the engine's order and with nothing
  between them. The right-hand side does not mention the preview before the batch: it is
  replaced, never appended to.
\<close>

theorem preview_after_batch:
  "interimText (onresult ev s) =
     (if final_text (results ev) = []
      then concat (map transcript (filter (\<lambda>r. \<not> isFinal r) (results ev)))
      else [])"
  by (rule interimText_onresult)

text \<open>The preview agrees with the specification's wording on every other batch.\<close>

lemma preview_eq_spec:
  "final_text (results ev) \<noteq> [] \<or> filter isFinal (results ev) = [] \<Longrightarrow>
   interimText (onresult ev s) = spec_preview (results ev)"
  by (auto simp: interimText_onresult spec_preview_def final_text_def)

section \<open>The start guard\<close>

lemma timers_stopRecognition: "timers (stopRecognition s) = timers s"
  by (simp add: stopRecognition_def Let_def split: option.splits)

lemma timers_initializeRecognition: "timers (initializeRecognition r s) = timers s"
  by (simp add: initializeRecognition_def Let_def timers_stopRecognition split: prod.splits)

lemma isStartingRef_stopRecognition: "isStartingRef (stopRecognition s) = isStartingRef s"
  by (simp add: stopRecognition_def Let_def split: option.splits)

lemma isStartingRef_initializeRecognition:
  "isStartingRef (initializeRecognition r s) = isStartingRef s"
  by (simp add: initializeRecognition_def Let_def isStartingRef_stopRecognition split: prod.splits)

lemma recognitionRef_stopRecognition: "recognitionRef (stopRecognition s) = recognitionRef s"
  by (simp add: stopRecognition_def Let_def split: option.splits)

lemma recognitionRef_initializeRecognition:
  "recognitionRef s \<noteq> None \<Longrightarrow> recognitionRef (initializeRecognition r s) \<noteq> None"
  by (simp add: initializeRecognition_def Let_def recognitionRef_stopRecognition split: prod.splits)

lemma toggle_begin_guard: "isStartingRef s \<Longrightarrow> toggleListening_begin r s = s"
  by (simp add: toggleListening_begin_def)

lemma toggle_begin_starts:
  assumes "recognitionRef t \<noteq> None" "\<not> isStartingRef t" "\<not> r_isListening r"
  shows "isStartingRef (toggleListening_begin r t)"
    and "timers (toggleListening_begin r t) = timers t @ [ToggleResume]"
  using assms
  by (simp_all add: toggleListening_begin_def Let_def isStartingRef_initializeRecognition
      timers_initializeRecognition)

lemma timers_start_current: "start_current s = Inr s' \<Longrightarrow> timers s' = timers s"
  by (auto simp: start_current_def split: option.splits sum.splits)

lemma timers_toggle_resume: "timers (toggleListening_resume s) = timers s"
  by (auto simp: toggleListening_resume_def toggle_catch_def dest: timers_start_current
      split: sum.splits)

text \<open>
  Claim C4 fails on the code. \<^verbatim>\<open>toggleListening\<close> sets \<^verbatim>\<open>isStartingRef\<close> before the
  delay and never clears it after \<^verbatim>\<open>start()\<close> has succeeded; only \<^verbatim>\<open>onend\<close>,
  \<^verbatim>\<open>onerror\<close> and the \<^verbatim>\<open>catch\<close> blocks clear it. After a click and the delay the
  component is listening with the guard still set, and the next click, meant to stop, is
  dropped by the guard.
\<close>

theorem listening_with_guard_held:
  "isListening listening_demo \<and> isStartingRef listening_demo \<and>
   step ClickToggle listening_demo = listening_demo"
  by (simp add: listening_demo_def mount_def initial_state_def initializeRecognition_def
      stopRecognition_def construct_def demo_engine_def render_of_def toggleListening_begin_def
      timer_elapsed_def toggleListening_resume_def start_current_def engine_start_def
      is_running_def set_running_def Let_def)

section \<open>Stopping\<close>

text \<open>
  Claim C6. \<^verbatim>\<open>stopRecognition\<close> on a session that is not listening, which is also what
  the unmount runs: the session is still not listening, the committed transcript and the
  preview are unchanged, and nothing is reported. The function returns a state in every
  case, so no exception leaves it; when \<^verbatim>\<open>stop()\<close> raises, the engine is left as it was
  and only \<^verbatim>\<open>isInitializedRef\<close> is cleared.
\<close>

theorem stop_when_idle_is_noop:
  assumes "\<not> isListening s"
  shows "\<not> isListening (stopRecognition s) \<and>
         spokenText (stopRecognition s) = spokenText s \<and>
         interimText (stopRecognition s) = interimText s \<and>
         notices (stopRecognition s) = notices s \<and>
         step Unmount s = stopRecognition s \<and>
         (recognitionRef s = Some h \<and> engine_stop h (eng s) = Inl err \<longrightarrow>
            stopRecognition s = s\<lparr>isInitializedRef := False\<rparr>)"
  using assms by (auto simp: stopRecognition_def Let_def split: option.splits sum.splits)

theorem stop_when_idle_is_noop_witness:
  "\<not> isListening (mount demo_engine) \<and>
   recognitionRef (mount demo_engine) = Some 0 \<and>
   engine_stop 0 (eng (mount demo_engine)) = Inl InvalidStateError \<and>
   stopRecognition (mount demo_engine) = (mount demo_engine)\<lparr>isInitializedRef := False\<rparr> \<and>
   spokenText (stopRecognition (mount demo_engine)) = [] \<and>
   notices (stopRecognition (mount demo_engine)) = []"
proof -
  have m: "\<not> isListening (mount demo_engine)" "recognitionRef (mount demo_engine) = Some 0"
    "engine_stop 0 (eng (mount demo_engine)) = Inl InvalidStateError"
    "spokenText (mount demo_engine) = []" "notices (mount demo_engine) = []"
    by (simp_all add: mount_def initial_state_def initializeRecognition_def stopRecognition_def
        construct_def demo_engine_def render_of_def engine_stop_def is_running_def)
  show ?thesis
    using m stop_when_idle_is_noop [OF m(1), of 0 InvalidStateError]
    by simp
qed

section \<open>No engine handle\<close>

lemma toggle_begin_no_handle: "recognitionRef s = None \<Longrightarrow> toggleListening_begin r s = s"
  by (simp add: toggleListening_begin_def)

lemma run_toggles_no_handle:
  "recognitionRef s = None \<Longrightarrow> run (replicate n ClickToggle) s = s"
  by (induction n) (simp_all add: toggle_begin_no_handle)

lemma mount_unsupported:
  "\<not> supported e \<Longrightarrow> mount e = (initial_state e)\<lparr>notices := [Alert_unsupported]\<rparr>"
  by (simp add: mount_def initializeRecognition_def initial_state_def)

text \<open>
  Claim C10. With \<^verbatim>\<open>recognitionRef.current\<close> null, \<^verbatim>\<open>toggleListening\<close> returns the
  state as it is. That is the state after mounting where the browser has no recognition
  constructor: the handle is null, the session is not listening, and any number of clicks
  leave everything unchanged.
\<close>

theorem toggle_without_handle_is_noop:
  "(recognitionRef s = None \<longrightarrow> toggleListening_begin r s = s \<and> step ClickToggle s = s) \<and>
   (\<not> supported e \<longrightarrow>
      recognitionRef (mount e) = None \<and> \<not> isListening (mount e) \<and>
      run (replicate n ClickToggle) (mount e) = mount e)"
proof (intro conjI impI)
  assume "recognitionRef s = None"
  then show "toggleListening_begin r s = s" "step ClickToggle s = s"
    by (simp_all add: toggle_begin_no_handle)
next
  assume u: "\<not> supported e"
  then show r: "recognitionRef (mount e) = None" and "\<not> isListening (mount e)"
    by (simp_all add: mount_unsupported initial_state_def)
  then show "run (replicate n ClickToggle) (mount e) = mount e"
    by (simp add: run_toggles_no_handle)
qed

theorem toggle_without_handle_is_noop_witness:
  "recognitionRef (mount unsupported_engine) = None \<and>
   \<not> supported unsupported_engine \<and>
   step ClickToggle (mount unsupported_engine) = mount unsupported_engine \<and>
   \<not> isListening (mount unsupported_engine) \<and>
   run [ClickToggle, ClickToggle] (mount unsupported_engine) = mount unsupported_engine"
proof -
  have u: "\<not> supported unsupported_engine"
    by (simp add: unsupported_engine_def)
  have r: "recognitionRef (mount unsupported_engine) = None"
    by (simp add: mount_unsupported [OF u] initial_state_def)
  show ?thesis
    using u r toggle_without_handle_is_noop
      [of "mount unsupported_engine" "render_of (mount unsupported_engine)" unsupported_engine 2]
    by (simp add: numeral_2_eq_2)
qed

section \<open>Changing the language while listening\<close>

lemma is_running_set_running_False:
  "\<not> is_running h (e\<lparr>instances := set_running h False (instances e)\<rparr>)"
  by (simp add: is_running_def set_running_def)

lemma stopRecognition_not_running:
  "recognitionRef s \<noteq> None \<Longrightarrow> \<not> current_running (stopRecognition s)"
  by (auto simp: current_running_def stopRecognition_def engine_stop_def Let_def
      is_running_set_running_False split: option.splits sum.splits if_splits)

lemma stopRecognition_keeps_not_running:
  assumes "\<not> current_running s"
  shows "\<not> current_running (stopRecognition s)"
proof (cases "recognitionRef s")
  case None
  then show ?thesis using assms by (simp add: stopRecognition_def)
next
  case (Some h)
  then show ?thesis by (simp add: stopRecognition_not_running)
qed

lemma initializeRecognition_not_running:
  assumes "\<not> current_running s \<or> supported (eng s)"
  shows "\<not> current_running (initializeRecognition r s)"
proof (cases "supported (eng s)")
  case True
  then show ?thesis
    by (simp add: initializeRecognition_def current_running_def construct_def is_running_def
        Let_def split: prod.splits)
next
  case False
  then show ?thesis
    using assms by (auto simp: initializeRecognition_def current_running_def split: option.splits)
qed

lemma start_current_not_running:
  "\<not> current_running s \<Longrightarrow> recognitionRef s \<noteq> None \<Longrightarrow> \<exists>e. start_current s = Inr (s\<lparr>eng := e\<rparr>)"
  by (auto simp: start_current_def current_running_def engine_start_def split: option.splits)

lemma language_stopRecognition: "language (stopRecognition s) = language s"
  by (simp add: stopRecognition_def Let_def split: option.splits)

lemma language_initializeRecognition: "language (initializeRecognition r s) = language s"
  by (simp add: initializeRecognition_def Let_def language_stopRecognition split: prod.splits)

lemma isListening_stopRecognition:
  "recognitionRef s \<noteq> None \<or> \<not> isListening s \<Longrightarrow> \<not> isListening (stopRecognition s)"
  by (auto simp: stopRecognition_def Let_def split: option.splits)

lemma isListening_initializeRecognition:
  "\<not> isListening s \<Longrightarrow> \<not> isListening (initializeRecognition r s)"
  by (auto simp: initializeRecognition_def Let_def isListening_stopRecognition split: prod.splits)

lemma current_running_timers [simp]: "current_running (s\<lparr>timers := ts\<rparr>) = current_running s"
  by (simp add: current_running_def split: option.splits)

lemma current_running_language [simp]: "current_running (s\<lparr>language := l\<rparr>) = current_running s"
  by (simp add: current_running_def split: option.splits)

lemma current_running_isStartingRef [simp]:
  "current_running (s\<lparr>isStartingRef := b\<rparr>) = current_running s"
  by (simp add: current_running_def split: option.splits)

text \<open>The state after the language choice of a listening session.\<close>

lemma select_language_listening:
  assumes "isListening s" "recognitionRef s \<noteq> None"
  shows "\<not> isListening (select_language l s)"
    and "timers (select_language l s) = timers s @ [LanguageResume (render_of s)]"
    and "language (select_language l s) = l"
    and "spokenText (select_language l s) = spokenText s"
    and "interimText (select_language l s) = interimText s"
    and "\<not> current_running (select_language l s)"
    and "recognitionRef (select_language l s) \<noteq> None"
proof -
  let ?s0 = "s\<lparr>language := l\<rparr>"
  let ?s1 = "(stopRecognition ?s0)\<lparr>timers := timers (stopRecognition ?s0) @ [LanguageResume (render_of s)]\<rparr>"
  have b: "handleLanguageChange_begin (render_of s) l s = ?s1"
    using assms by (simp add: handleLanguageChange_begin_def render_of_def Let_def)
  have r0: "recognitionRef ?s0 \<noteq> None" using assms by simp
  have nr: "\<not> current_running ?s1"
    using stopRecognition_not_running [OF r0] by simp
  have nl: "\<not> isListening ?s1"
    using isListening_stopRecognition [of ?s0] r0 by simp
  have rr: "recognitionRef ?s1 \<noteq> None"
    using r0 by (simp add: recognitionRef_stopRecognition)
  let ?le = "language_effect (render_of ?s1) ?s1"
  have sl: "select_language l s = ?s1 \<or> select_language l s = ?le"
    by (auto simp: select_language_def b Let_def)
  have e1: "\<not> isListening ?le"
    using nl rr
    by (simp add: language_effect_def isListening_initializeRecognition isListening_stopRecognition)
  have t1: "timers ?s1 = timers s @ [LanguageResume (render_of s)]"
    by (simp add: timers_stopRecognition)
  have t2: "timers ?le = timers s @ [LanguageResume (render_of s)]"
    by (simp add: language_effect_def timers_initializeRecognition timers_stopRecognition)
  have l1: "language ?s1 = l"
    by (simp add: language_stopRecognition)
  have l2: "language ?le = l"
    by (simp add: language_effect_def language_initializeRecognition language_stopRecognition)
  have i1: "interimText ?s1 = interimText s"
    by (simp add: interimText_stopRecognition)
  have i2: "interimText ?le = interimText s"
    by (simp add: language_effect_def interimText_initializeRecognition interimText_stopRecognition)
  have n2: "\<not> current_running ?le"
    using nr
    by (simp add: language_effect_def initializeRecognition_not_running
        stopRecognition_keeps_not_running)
  have r2: "recognitionRef ?le \<noteq> None"
    using rr
    by (simp add: language_effect_def recognitionRef_initializeRecognition
        recognitionRef_stopRecognition)
  show "\<not> isListening (select_language l s)"
    using sl nl e1 by metis
  show "timers (select_language l s) = timers s @ [LanguageResume (render_of s)]"
    using sl t1 t2 by metis
  show "language (select_language l s) = l"
    using sl l1 l2 by metis
  show "spokenText (select_language l s) = spokenText s"
    by (rule spokenText_select_language)
  show "interimText (select_language l s) = interimText s"
    using sl i1 i2 by metis
  show "\<not> current_running (select_language l s)"
    using sl nr n2 by metis
  show "recognitionRef (select_language l s) \<noteq> None"
    using sl rr r2 by metis
qed

lemma language_resume_starts:
  assumes "r_isListening r" "\<not> current_running s" "recognitionRef s \<noteq> None"
  shows "isStartingRef (handleLanguageChange_resume r s)"
    and "language (handleLanguageChange_resume r s) = language s"
    and "interimText (handleLanguageChange_resume r s) = interimText s"
    and "timers (handleLanguageChange_resume r s) = timers s"
proof -
  let ?s2 = "(initializeRecognition r s)\<lparr>isStartingRef := True\<rparr>"
  have "\<not> current_running ?s2" "recognitionRef ?s2 \<noteq> None"
    using assms by (simp_all add: initializeRecognition_not_running recognitionRef_initializeRecognition)
  then obtain e where e: "start_current ?s2 = Inr (?s2\<lparr>eng := e\<rparr>)"
    using start_current_not_running by blast
  have h: "handleLanguageChange_resume r s = ?s2\<lparr>eng := e\<rparr>"
    using assms(1) e by (simp add: handleLanguageChange_resume_def Let_def)
  show "isStartingRef (handleLanguageChange_resume r s)"
    by (simp add: h)
  show "language (handleLanguageChange_resume r s) = language s"
    by (simp add: h language_initializeRecognition)
  show "interimText (handleLanguageChange_resume r s) = interimText s"
    by (simp add: h interimText_initializeRecognition)
  show "timers (handleLanguageChange_resume r s) = timers s"
    by (simp add: h timers_initializeRecognition)
qed

text \<open>
  A listening session whose preview is \<^verbatim>\<open>wor\<close>, the choice of Spanish and the elapsed
  delay of 300 ms. Nothing on this path writes \<^verbatim>\<open>interimText\<close>, so the preview is still
  \<^verbatim>\<open>wor\<close>; and \<^verbatim>\<open>isListening\<close>, cleared by \<^verbatim>\<open>stopRecognition\<close>, is not set again.
\<close>

theorem language_switch_counterexample:
  "isListening listening_wor \<and>
   interimText (run [SelectLanguage EsES, TimerElapsed 0] listening_wor) = ''wor'' \<and>
   \<not> spec_language_switch EsES listening_wor (run [SelectLanguage EsES, TimerElapsed 0] listening_wor)"
proof -
  have l: "isListening listening_demo" "recognitionRef listening_demo \<noteq> None"
    "timers listening_demo = []" "interimText listening_demo = []"
    by (simp_all add: listening_demo_def mount_def initial_state_def initializeRecognition_def
      stopRecognition_def construct_def demo_engine_def render_of_def toggleListening_begin_def
      timer_elapsed_def toggleListening_resume_def start_current_def engine_start_def
      is_running_def set_running_def Let_def)
  have w: "isListening listening_wor" "recognitionRef listening_wor \<noteq> None"
    "timers listening_wor = []" "interimText listening_wor = ''wor''"
    using l
    by (simp_all add: listening_wor_def onresult_def wor_event_def final_text_def
        interim_text_def Let_def)
  note s = select_language_listening [OF w(1,2), of EsES]
  let ?s1 = "select_language EsES listening_wor"
  have t: "timer_elapsed 0 ?s1
      = handleLanguageChange_resume (render_of listening_wor) (?s1\<lparr>timers := []\<rparr>)"
    by (simp add: timer_elapsed_def s(2) w(3))
  have "interimText (timer_elapsed 0 ?s1) = ''wor''"
    unfolding t
    using language_resume_starts(3) [of "render_of listening_wor" "?s1\<lparr>timers := []\<rparr>"] s w
    by (simp add: render_of_def)
  then show ?thesis
    using w(1) by (simp add: spec_language_switch_def)
qed

section \<open>Choosing a language while idle\<close>

lemma stopRecognition_None: "recognitionRef s = None \<Longrightarrow> stopRecognition s = s"
  by (simp add: stopRecognition_def)

lemma stopRecognition_Some:
  "recognitionRef s \<noteq> None \<Longrightarrow>
   \<not> isInitializedRef (stopRecognition s) \<and> \<not> isListening (stopRecognition s)"
  by (auto simp: stopRecognition_def Let_def)

lemma supported_stopRecognition: "supported (eng (stopRecognition s)) = supported (eng s)"
  by (auto simp: stopRecognition_def engine_stop_def Let_def split: option.splits)

lemma supported_initializeRecognition:
  "supported (eng (initializeRecognition r s)) = supported (eng s)"
  by (simp add: initializeRecognition_def construct_def Let_def supported_stopRecognition)

lemma initializeRecognition_unsupported:
  "\<not> supported (eng s) \<Longrightarrow>
   initializeRecognition r s = s\<lparr>notices := notices s @ [Alert_unsupported]\<rparr>"
  by (simp add: initializeRecognition_def)

lemma initializeRecognition_supported:
  assumes "supported (eng s)"
  shows "bound_idle (r_language r) (initializeRecognition r s)"
    and "isInitializedRef (initializeRecognition r s)"
  using assms
  by (simp_all add: initializeRecognition_def construct_def bound_idle_def Let_def)

lemma isInitializedRef_initializeRecognition_unsupported:
  "\<not> supported (eng s) \<Longrightarrow> isInitializedRef (initializeRecognition r s) = isInitializedRef s"
  by (simp add: initializeRecognition_unsupported)

lemma start_current_Inr:
  "start_current s = Inr s' \<Longrightarrow> \<exists>e. s' = s\<lparr>eng := e\<rparr> \<and> supported e = supported (eng s)"
  by (auto simp: start_current_def engine_start_def split: option.splits if_splits)

lemma start_current_bound_idle:
  assumes "bound_idle l s"
  shows "\<exists>e. start_current s = Inr (s\<lparr>eng := e\<rparr>) \<and> started_on l (s\<lparr>eng := e\<rparr>)"
  using assms
  by (auto simp: bound_idle_def started_on_def start_current_def engine_start_def is_running_def
      set_running_def split: option.splits)

lemma bound_idle_updates [simp]:
  "bound_idle l (s\<lparr>timers := ts\<rparr>) = bound_idle l s"
  "bound_idle l (s\<lparr>isStartingRef := b\<rparr>) = bound_idle l s"
  "bound_idle l (s\<lparr>language := l'\<rparr>) = bound_idle l s"
  "bound_idle l (s\<lparr>spokenText := x\<rparr>) = bound_idle l s"
  "bound_idle l (s\<lparr>interimText := x\<rparr>) = bound_idle l s"
  by (simp_all add: bound_idle_def split: option.splits)

lemma started_on_updates [simp]:
  "started_on l (s\<lparr>timers := ts\<rparr>) = started_on l s"
  "started_on l (s\<lparr>isListening := b\<rparr>) = started_on l s"
  by (simp_all add: started_on_def split: option.splits)

subsection \<open>Facts kept by every step\<close>

lemma supported_toggle_resume: "supported (eng (toggleListening_resume s)) = supported (eng s)"
  by (auto simp: toggleListening_resume_def toggle_catch_def dest!: start_current_Inr
      split: sum.splits)

lemma supported_language_resume:
  "supported (eng (handleLanguageChange_resume r s)) = supported (eng s)"
  by (auto simp: handleLanguageChange_resume_def language_catch_def Let_def
      supported_initializeRecognition dest!: start_current_Inr split: sum.splits)

lemma supported_step: "supported (eng (step ev s)) = supported (eng s)"
proof (cases ev)
  case (TimerElapsed n)
  show ?thesis
  proof (cases "n < length (timers s)")
    case True
    then show ?thesis
      by (cases "timers s ! n")
         (simp_all add: TimerElapsed timer_elapsed_def supported_toggle_resume
            supported_language_resume)
  next
    case False
    then show ?thesis by (simp add: TimerElapsed timer_elapsed_def)
  qed
qed (simp_all add: onresult_def onend_def onerror_def toggleListening_begin_def
    select_language_def handleLanguageChange_begin_def language_effect_def Let_def
    supported_stopRecognition supported_initializeRecognition)

lemma supported_run: "supported (eng (run evs s)) = supported (eng s)"
  by (induction evs arbitrary: s) (simp_all add: supported_step)

lemma recognitionRef_start_current:
  "start_current s = Inr s' \<Longrightarrow> recognitionRef s' = recognitionRef s"
  by (auto dest: start_current_Inr)

lemma recognitionRef_toggle_resume:
  "recognitionRef (toggleListening_resume s) = recognitionRef s"
  by (auto simp: toggleListening_resume_def toggle_catch_def dest!: start_current_Inr
      split: sum.splits)

lemma recognitionRef_language_resume:
  "recognitionRef s \<noteq> None \<Longrightarrow> recognitionRef (handleLanguageChange_resume r s) \<noteq> None"
  using recognitionRef_initializeRecognition [of s r]
  by (auto simp: handleLanguageChange_resume_def language_catch_def Let_def
      dest!: start_current_Inr split: sum.splits)

lemma recognitionRef_step:
  assumes "recognitionRef s \<noteq> None"
  shows "recognitionRef (step ev s) \<noteq> None"
proof (cases ev)
  case (TimerElapsed n)
  show ?thesis
  proof (cases "n < length (timers s)")
    case True
    then show ?thesis
      using assms
      by (cases "timers s ! n")
         (simp_all add: TimerElapsed timer_elapsed_def recognitionRef_toggle_resume
            recognitionRef_language_resume)
  next
    case False
    then show ?thesis using assms by (simp add: TimerElapsed timer_elapsed_def)
  qed
next
  case (SelectLanguage l)
  then show ?thesis
    using assms
    by (simp add: select_language_def handleLanguageChange_begin_def language_effect_def Let_def
        recognitionRef_stopRecognition recognitionRef_initializeRecognition del: not_None_eq)
qed (use assms in \<open>simp_all add: onresult_def onend_def onerror_def toggleListening_begin_def
    Let_def recognitionRef_stopRecognition recognitionRef_initializeRecognition
    del: not_None_eq\<close>)

lemma recognitionRef_run:
  "recognitionRef s \<noteq> None \<Longrightarrow> recognitionRef (run evs s) \<noteq> None"
  by (induction evs arbitrary: s) (simp_all add: recognitionRef_step del: not_None_eq)

subsection \<open>The invariant\<close>

lemma session_inv_mount: "session_inv (mount e)"
proof (cases "supported e")
  case True
  then show ?thesis
    using initializeRecognition_supported(1) [of "initial_state e" "render_of (initial_state e)"]
    by (simp add: session_inv_def mount_def timers_initializeRecognition
        language_initializeRecognition)
       (simp add: initial_state_def render_of_def)
next
  case False
  then show ?thesis
    by (simp add: session_inv_def mount_def initializeRecognition_unsupported initial_state_def)
qed

lemma session_inv_not_initialized:
  "list_all captured_listening (timers s) \<Longrightarrow>
   \<not> isInitializedRef s \<or> isStartingRef s \<or> isListening s \<Longrightarrow> session_inv s"
  by (auto simp: session_inv_def)

lemma session_inv_timers: "session_inv s \<Longrightarrow> list_all captured_listening (timers s)"
  by (simp add: session_inv_def)

lemma session_inv_stopRecognition: "session_inv s \<Longrightarrow> session_inv (stopRecognition s)"
proof (cases "recognitionRef s")
  case None
  then show "session_inv s \<Longrightarrow> ?thesis" by (simp add: stopRecognition_None)
next
  case (Some h)
  then show "session_inv s \<Longrightarrow> ?thesis"
    using stopRecognition_Some [of s]
    by (intro session_inv_not_initialized) (simp_all add: timers_stopRecognition session_inv_timers)
qed

lemma session_inv_toggle_begin:
  assumes "session_inv s"
  shows "session_inv (toggleListening_begin (render_of s) s)"
proof -
  have t: "list_all captured_listening (timers s)"
    using assms by (rule session_inv_timers)
  show ?thesis
  proof (cases "recognitionRef s = None \<or> isStartingRef s")
    case True
    then show ?thesis using assms by (simp add: toggleListening_begin_def)
  next
    case False
    show ?thesis
    proof (cases "isListening s")
      case True
      with False show ?thesis
        using assms by (simp add: toggleListening_begin_def render_of_def session_inv_stopRecognition)
    next
      case nl: False
      with False t show ?thesis
        by (intro session_inv_not_initialized)
           (simp_all add: toggleListening_begin_def render_of_def Let_def
              timers_initializeRecognition isStartingRef_initializeRecognition)
    qed
  qed
qed

lemma session_inv_toggle_resume:
  assumes "list_all captured_listening (timers s)"
  shows "session_inv (toggleListening_resume s)"
proof (cases "start_current s")
  case (Inl err)
  then show ?thesis
    using assms
    by (intro session_inv_not_initialized) (simp_all add: toggleListening_resume_def toggle_catch_def)
next
  case (Inr s')
  then show ?thesis
    using assms timers_start_current [OF Inr]
    by (intro session_inv_not_initialized) (simp_all add: toggleListening_resume_def)
qed

lemma session_inv_language_resume:
  assumes "list_all captured_listening (timers s)" "r_isListening r"
  shows "session_inv (handleLanguageChange_resume r s)"
proof -
  let ?s2 = "(initializeRecognition r s)\<lparr>isStartingRef := True\<rparr>"
  have t: "list_all captured_listening (timers ?s2)"
    using assms(1) by (simp add: timers_initializeRecognition)
  show ?thesis
  proof (cases "start_current ?s2")
    case (Inl err)
    then show ?thesis
      using assms(2) t
      by (intro session_inv_not_initialized)
         (simp_all add: handleLanguageChange_resume_def language_catch_def Let_def)
  next
    case (Inr s')
    from start_current_Inr [OF Inr] obtain e where "s' = ?s2\<lparr>eng := e\<rparr>"
      by blast
    then show ?thesis
      using assms(2) t Inr
      by (intro session_inv_not_initialized)
         (simp_all add: handleLanguageChange_resume_def Let_def)
  qed
qed

lemma session_inv_language_effect:
  assumes "list_all captured_listening (timers s)" "r_language r = language s"
    "recognitionRef s \<noteq> None \<or> \<not> isInitializedRef s \<or> isStartingRef s \<or> isListening s"
  shows "session_inv (language_effect r s)"
proof (cases "supported (eng s)")
  case True
  then have "supported (eng (stopRecognition s))"
    by (simp add: supported_stopRecognition)
  from initializeRecognition_supported(1) [OF this, of r] show ?thesis
    using assms
    by (simp add: session_inv_def language_effect_def timers_initializeRecognition
        timers_stopRecognition language_initializeRecognition language_stopRecognition)
next
  case False
  then have u: "\<not> supported (eng (stopRecognition s))"
    by (simp add: supported_stopRecognition)
  have "\<not> isInitializedRef (stopRecognition s) \<or> isStartingRef (stopRecognition s)
      \<or> isListening (stopRecognition s)"
  proof (cases "recognitionRef s")
    case None
    with assms(3) show ?thesis by (simp add: stopRecognition_None)
  next
    case (Some h)
    then show ?thesis using stopRecognition_Some [of s] by simp
  qed
  then show ?thesis
    using assms(1)
    by (intro session_inv_not_initialized)
       (simp_all add: language_effect_def initializeRecognition_unsupported [OF u]
          timers_stopRecognition)
qed

lemma session_inv_select_language:
  assumes "session_inv s"
  shows "session_inv (select_language l s)"
proof -
  have t: "list_all captured_listening (timers s)"
    using assms by (rule session_inv_timers)
  let ?s0 = "s\<lparr>language := l\<rparr>"
  show ?thesis
  proof (cases "isListening s \<and> recognitionRef s \<noteq> None")
    case True
    let ?s1 = "(stopRecognition ?s0)\<lparr>timers := timers (stopRecognition ?s0) @ [LanguageResume (render_of s)]\<rparr>"
    have b: "handleLanguageChange_begin (render_of s) l s = ?s1"
      using True by (simp add: handleLanguageChange_begin_def render_of_def Let_def)
    have r0: "recognitionRef ?s0 \<noteq> None" using True by simp
    have t1: "list_all captured_listening (timers ?s1)"
      using t True by (simp add: timers_stopRecognition render_of_def)
    have ni: "\<not> isInitializedRef ?s1"
      using stopRecognition_Some [OF r0] by simp
    have sl: "select_language l s = ?s1 \<or> select_language l s = language_effect (render_of ?s1) ?s1"
      by (auto simp: select_language_def b Let_def)
    have i1: "session_inv ?s1"
      using t1 ni by (intro session_inv_not_initialized) simp_all
    have i2: "session_inv (language_effect (render_of ?s1) ?s1)"
      using t1 ni by (intro session_inv_language_effect) (simp_all add: render_of_def)
    show ?thesis
      using sl i1 i2 by metis
  next
    case False
    then have b: "handleLanguageChange_begin (render_of s) l s = ?s0"
      by (auto simp: handleLanguageChange_begin_def render_of_def Let_def)
    show ?thesis
    proof (cases "l = language s")
      case True
      with b have "select_language l s = s"
        by (simp add: select_language_def Let_def)
      then show ?thesis using assms by simp
    next
      case ne: False
      then have sl: "select_language l s = language_effect (render_of ?s0) ?s0"
        by (simp add: select_language_def b Let_def)
      have c: "recognitionRef ?s0 \<noteq> None \<or> \<not> isInitializedRef ?s0 \<or> isStartingRef ?s0
          \<or> isListening ?s0"
        using assms by (auto simp: session_inv_def bound_idle_def split: option.splits)
      show ?thesis
        unfolding sl using t c
        by (intro session_inv_language_effect) (simp_all add: render_of_def)
    qed
  qed
qed

lemma session_inv_timer_elapsed:
  assumes "session_inv s"
  shows "session_inv (timer_elapsed n s)"
proof (cases "n < length (timers s)")
  case False
  then show ?thesis using assms by (simp add: timer_elapsed_def)
next
  case True
  have t: "list_all captured_listening (timers s)"
    using assms by (rule session_inv_timers)
  let ?s' = "s\<lparr>timers := take n (timers s) @ drop (Suc n) (timers s)\<rparr>"
  have t': "list_all captured_listening (timers ?s')"
    using t by (auto simp: list_all_iff dest: in_set_takeD in_set_dropD)
  have c: "captured_listening (timers s ! n)"
    using t True by (simp add: list_all_length)
  show ?thesis
  proof (cases "timers s ! n")
    case ToggleResume
    then show ?thesis
      using True session_inv_toggle_resume [OF t'] by (simp add: timer_elapsed_def)
  next
    case (LanguageResume r)
    then show ?thesis
      using True c session_inv_language_resume [OF t', of r] by (simp add: timer_elapsed_def)
  qed
qed

lemma session_inv_step: "session_inv s \<Longrightarrow> session_inv (step ev s)"
proof (cases ev)
  case (EngineResult x)
  then show "session_inv s \<Longrightarrow> ?thesis"
    by (simp add: session_inv_def onresult_def Let_def)
next
  case (EngineEnd h)
  then show "session_inv s \<Longrightarrow> ?thesis"
    by (simp add: session_inv_def onend_def)
next
  case EngineError
  then show "session_inv s \<Longrightarrow> ?thesis"
    by (simp add: session_inv_def onerror_def)
qed (simp_all add: session_inv_toggle_begin session_inv_select_language
    session_inv_timer_elapsed session_inv_stopRecognition)

lemma session_inv_run: "session_inv s \<Longrightarrow> session_inv (run evs s)"
  by (induction evs arbitrary: s) (simp_all add: session_inv_step)

lemma recognitionRef_mount: "supported e \<Longrightarrow> recognitionRef (mount e) \<noteq> None"
  by (simp add: mount_def initializeRecognition_def initial_state_def construct_def
      stopRecognition_def split: prod.splits)

lemma supported_mount: "supported (eng (mount e)) = supported e"
  by (simp add: mount_def supported_initializeRecognition initial_state_def)

subsection \<open>Choosing a language, then starting\<close>

lemma language_select_language: "language (select_language l s) = l"
  by (simp add: select_language_def handleLanguageChange_begin_def language_effect_def Let_def
      language_initializeRecognition language_stopRecognition)

lemma toggle_starts_bound:
  assumes "recognitionRef s \<noteq> None" "\<not> isStartingRef s" "\<not> isListening s"
    "supported (eng s)" "language s = l" "isInitializedRef s \<longrightarrow> bound_idle l s"
  shows "isListening (run [ClickToggle, TimerElapsed (length (timers s))] s)"
    and "started_on l (run [ClickToggle, TimerElapsed (length (timers s))] s)"
    and "language (run [ClickToggle, TimerElapsed (length (timers s))] s) = l"
proof -
  let ?r = "render_of s"
  let ?s2 = "toggleListening_begin ?r s"
  let ?s2' = "?s2\<lparr>timers := timers s\<rparr>"
  have nl: "\<not> r_isListening ?r" using assms(3) by (simp add: render_of_def)
  have tm: "timers ?s2 = timers s @ [ToggleResume]"
    using assms(1,2) nl by (rule toggle_begin_starts(2))
  have b: "bound_idle l ?s2"
  proof (cases "isInitializedRef s")
    case True
    then show ?thesis
      using assms by (simp add: toggleListening_begin_def render_of_def Let_def del: not_None_eq)
  next
    case False
    have "bound_idle (r_language ?r) (initializeRecognition ?r (s\<lparr>isStartingRef := True\<rparr>))"
      using assms(4) by (intro initializeRecognition_supported(1)) simp
    then show ?thesis
      using False assms(1,2,3,5)
      by (simp add: toggleListening_begin_def render_of_def Let_def del: not_None_eq)
  qed
  have lg: "language ?s2 = l"
    using assms
    by (simp add: toggleListening_begin_def render_of_def Let_def language_initializeRecognition
        del: not_None_eq)
  have te: "timer_elapsed (length (timers s)) ?s2 = toggleListening_resume ?s2'"
    by (simp add: timer_elapsed_def tm)
  from b have "bound_idle l ?s2'" by simp
  from start_current_bound_idle [OF this] obtain e where
    e: "start_current ?s2' = Inr (?s2'\<lparr>eng := e\<rparr>)" and st: "started_on l (?s2'\<lparr>eng := e\<rparr>)"
    by blast
  have res: "toggleListening_resume ?s2' = ?s2'\<lparr>eng := e, isListening := True\<rparr>"
    by (simp add: toggleListening_resume_def e)
  show "isListening (run [ClickToggle, TimerElapsed (length (timers s))] s)"
    by (simp add: te res)
  show "started_on l (run [ClickToggle, TimerElapsed (length (timers s))] s)"
    using st by (simp add: te res)
  show "language (run [ClickToggle, TimerElapsed (length (timers s))] s) = l"
    using lg by (simp add: te res)
qed

lemma select_language_idle:
  assumes "session_inv s" "recognitionRef s \<noteq> None" "\<not> isStartingRef s" "\<not> isListening s"
    "supported (eng s)"
  shows "recognitionRef (select_language l s) \<noteq> None"
    and "\<not> isStartingRef (select_language l s)"
    and "\<not> isListening (select_language l s)"
    and "supported (eng (select_language l s))"
    and "isInitializedRef (select_language l s) \<longrightarrow> bound_idle l (select_language l s)"
    and "timers (select_language l s) = timers s"
proof -
  let ?s0 = "s\<lparr>language := l\<rparr>"
  have b: "handleLanguageChange_begin (render_of s) l s = ?s0"
    using assms(4) by (simp add: handleLanguageChange_begin_def render_of_def Let_def)
  show "recognitionRef (select_language l s) \<noteq> None"
    using recognitionRef_step [OF assms(2), of "SelectLanguage l"] by simp
  show "supported (eng (select_language l s))"
    using supported_step [of "SelectLanguage l" s] assms(5) by simp
  show "\<not> isStartingRef (select_language l s)"
    using assms(3)
    by (simp add: select_language_def b Let_def language_effect_def
        isStartingRef_initializeRecognition isStartingRef_stopRecognition)
  show "\<not> isListening (select_language l s)"
    using assms(4)
    by (simp add: select_language_def b Let_def language_effect_def
        isListening_initializeRecognition isListening_stopRecognition)
  show "timers (select_language l s) = timers s"
    by (simp add: select_language_def b Let_def language_effect_def
        timers_initializeRecognition timers_stopRecognition)
  show "isInitializedRef (select_language l s) \<longrightarrow> bound_idle l (select_language l s)"
  proof (cases "l = language s")
    case True
    with b have "select_language l s = s"
      by (simp add: select_language_def Let_def)
    then show ?thesis
      using assms(1,3,4) True by (simp add: session_inv_def)
  next
    case False
    then have sl: "select_language l s = initializeRecognition (render_of ?s0) (stopRecognition ?s0)"
      by (simp add: select_language_def b Let_def language_effect_def)
    have "supported (eng (stopRecognition ?s0))"
      using assms(5) by (simp add: supported_stopRecognition)
    from initializeRecognition_supported(1) [OF this, of "render_of ?s0"] show ?thesis
      by (simp add: sl render_of_def)
  qed
qed

text \<open>
  Claim C8. A language choice stores the chosen language, in every state. In every state
  that a mounted component with a supported engine can reach and in which it is neither
  listening nor starting, choosing the language \<open>l\<close>, clicking the toggle and letting
  its delay elapse ends listening, with the instance in \<^verbatim>\<open>recognitionRef\<close> running in the
  engine and configured with the language \<open>l\<close>.
\<close>

theorem language_then_toggle_binds:
  assumes "supported e"
    and "\<not> isListening (run evs (mount e))" and "\<not> isStartingRef (run evs (mount e))"
  shows "language (step (SelectLanguage l) t) = l \<and>
         isListening (run [SelectLanguage l, ClickToggle,
             TimerElapsed (length (timers (run evs (mount e))))] (run evs (mount e))) \<and>
         started_on l (run [SelectLanguage l, ClickToggle,
             TimerElapsed (length (timers (run evs (mount e))))] (run evs (mount e))) \<and>
         language (run [SelectLanguage l, ClickToggle,
             TimerElapsed (length (timers (run evs (mount e))))] (run evs (mount e))) = l"
proof -
  let ?s = "run evs (mount e)"
  let ?s1 = "select_language l ?s"
  have inv: "session_inv ?s"
    by (intro session_inv_run session_inv_mount)
  have sup: "supported (eng ?s)"
    using assms(1) by (simp add: supported_run supported_mount)
  have ref: "recognitionRef ?s \<noteq> None"
    using assms(1) by (intro recognitionRef_run recognitionRef_mount)
  note i = select_language_idle [OF inv ref assms(3) assms(2) sup, of l]
  note g = toggle_starts_bound [OF i(1) i(2) i(3) i(4) language_select_language i(5),
      unfolded i(6)]
  show ?thesis
    using g by (simp add: language_select_language)
qed

theorem language_then_toggle_binds_witness:
  "supported demo_engine \<and> \<not> isListening (run [] (mount demo_engine)) \<and>
   \<not> isStartingRef (run [] (mount demo_engine)) \<and>
   language (step (SelectLanguage EsES) (mount demo_engine)) = EsES \<and>
   isListening (run [SelectLanguage EsES, ClickToggle, TimerElapsed 0] (mount demo_engine)) \<and>
   started_on EsES (run [SelectLanguage EsES, ClickToggle, TimerElapsed 0] (mount demo_engine))"
proof -
  have m: "supported demo_engine" "\<not> isListening (run [] (mount demo_engine))"
    "\<not> isStartingRef (run [] (mount demo_engine))"
    and t: "timers (run [] (mount demo_engine)) = []"
    by (simp_all add: mount_def initial_state_def initializeRecognition_def stopRecognition_def
        construct_def demo_engine_def render_of_def)
  note w = language_then_toggle_binds [OF m, of EsES "mount demo_engine", unfolded t list.size]
  have r: "run [] (mount demo_engine) = mount demo_engine" by simp
  show ?thesis
    using m w unfolding r by blast
qed

section \<open>The restart after a language change\<close>

lemma started_on_current_running: "started_on l s \<Longrightarrow> current_running s"
  by (auto simp: started_on_def current_running_def is_running_def split: option.splits)

lemma is_running_set_running_other:
  "\<not> is_running h e \<Longrightarrow> \<not> is_running h (e\<lparr>instances := set_running k False (instances e)\<rparr>)"
  by (auto simp: is_running_def set_running_def nth_list_update)

lemma is_running_stopRecognition:
  "\<not> is_running h (eng s) \<Longrightarrow> \<not> is_running h (eng (stopRecognition s))"
  by (auto simp: stopRecognition_def engine_stop_def Let_def is_running_set_running_other
      split: option.splits)

lemma is_running_stopRecognition_current:
  "recognitionRef s = Some h \<Longrightarrow> \<not> is_running h (eng (stopRecognition s))"
  using stopRecognition_not_running [of s]
  by (simp add: current_running_def recognitionRef_stopRecognition)

lemma is_running_construct:
  "\<not> is_running h e \<Longrightarrow> \<not> is_running h (snd (construct l e))"
  by (auto simp: is_running_def construct_def nth_append)

lemma is_running_initializeRecognition:
  assumes "\<not> is_running h (eng s)"
  shows "\<not> is_running h (eng (initializeRecognition r s))"
proof (cases "supported (eng s)")
  case True
  have "\<not> is_running h (snd (construct (r_language r) (eng (stopRecognition s))))"
    using assms by (intro is_running_construct is_running_stopRecognition)
  then show ?thesis
    using True by (auto simp: initializeRecognition_def Let_def split: prod.splits)
next
  case False
  then show ?thesis using assms by (simp add: initializeRecognition_unsupported)
qed

lemma select_language_stops_old:
  assumes "isListening s" "recognitionRef s = Some h"
  shows "\<not> is_running h (eng (select_language l s))"
proof -
  let ?s0 = "s\<lparr>language := l\<rparr>"
  let ?s1 = "(stopRecognition ?s0)\<lparr>timers := timers (stopRecognition ?s0) @ [LanguageResume (render_of s)]\<rparr>"
  let ?le = "language_effect (render_of ?s1) ?s1"
  have b: "handleLanguageChange_begin (render_of s) l s = ?s1"
    using assms by (simp add: handleLanguageChange_begin_def render_of_def Let_def)
  have sl: "select_language l s = ?s1 \<or> select_language l s = ?le"
    by (auto simp: select_language_def b Let_def)
  have "\<not> is_running h (eng (stopRecognition ?s0))"
    using assms(2) by (intro is_running_stopRecognition_current) simp
  then have n1: "\<not> is_running h (eng ?s1)" by simp
  then have n2: "\<not> is_running h (eng ?le)"
    unfolding language_effect_def
    by (intro is_running_initializeRecognition is_running_stopRecognition)
  show ?thesis
    using sl n1 n2 by metis
qed

lemma language_resume_running:
  assumes "r_isListening r" "supported (eng s)"
  shows "current_running (handleLanguageChange_resume r s)"
    and "isInitializedRef (handleLanguageChange_resume r s)"
proof -
  let ?s2 = "(initializeRecognition r s)\<lparr>isStartingRef := True\<rparr>"
  have "bound_idle (r_language r) ?s2"
    using initializeRecognition_supported(1) [OF assms(2), of r] by simp
  from start_current_bound_idle [OF this] obtain e where
    e: "start_current ?s2 = Inr (?s2\<lparr>eng := e\<rparr>)"
    and st: "started_on (r_language r) (?s2\<lparr>eng := e\<rparr>)"
    by blast
  have h: "handleLanguageChange_resume r s = ?s2\<lparr>eng := e\<rparr>"
    using assms(1) e by (simp add: handleLanguageChange_resume_def Let_def)
  show "current_running (handleLanguageChange_resume r s)"
    using st by (simp add: h started_on_current_running)
  show "isInitializedRef (handleLanguageChange_resume r s)"
    using initializeRecognition_supported(2) [OF assms(2), of r] by (simp add: h)
qed

text \<open>
  Claim C5, as amended. When the language is changed while the session is listening and
  has a handle: the language becomes the new one at once; the session is stopped, which is
  \<^verbatim>\<open>isListening\<close> false and neither the instance that was in \<^verbatim>\<open>recognitionRef\<close> nor
  the one that is there now running in the engine; and one delay is scheduled. When that
  delay has elapsed the start guard is set and, where the engine is supported, the session
  is initialized again and \<^verbatim>\<open>start()\<close> has been issued: the instance in
  \<^verbatim>\<open>recognitionRef\<close> is running. The language is still the new one, and both the
  committed transcript and the preview are what they were before the change: the preview is
  kept, not cleared.
\<close>

theorem language_switch_while_listening:
  assumes "isListening s" "recognitionRef s \<noteq> None"
  shows "\<not> isListening (step (SelectLanguage l) s) \<and>
         \<not> current_running (step (SelectLanguage l) s) \<and>
         (recognitionRef s = Some h \<longrightarrow> \<not> is_running h (eng (step (SelectLanguage l) s))) \<and>
         timers (step (SelectLanguage l) s) = timers s @ [LanguageResume (render_of s)] \<and>
         language (step (SelectLanguage l) s) = l \<and>
         isStartingRef (run [SelectLanguage l, TimerElapsed (length (timers s))] s) \<and>
         (supported (eng s) \<longrightarrow>
            current_running (run [SelectLanguage l, TimerElapsed (length (timers s))] s) \<and>
            isInitializedRef (run [SelectLanguage l, TimerElapsed (length (timers s))] s)) \<and>
         language (run [SelectLanguage l, TimerElapsed (length (timers s))] s) = l \<and>
         spokenText (run [SelectLanguage l, TimerElapsed (length (timers s))] s) = spokenText s \<and>
         interimText (run [SelectLanguage l, TimerElapsed (length (timers s))] s) = interimText s \<and>
         timers (run [SelectLanguage l, TimerElapsed (length (timers s))] s) = timers s"
proof -
  note s = select_language_listening [OF assms, of l]
  let ?s1 = "select_language l s"
  let ?s1' = "?s1\<lparr>timers := timers s\<rparr>"
  have t: "timer_elapsed (length (timers s)) ?s1
      = handleLanguageChange_resume (render_of s) ?s1'"
    by (simp add: timer_elapsed_def s(2))
  have p: "r_isListening (render_of s)" "\<not> current_running ?s1'" "recognitionRef ?s1' \<noteq> None"
    using assms s by (simp_all add: render_of_def)
  note r = language_resume_starts [OF p]
  have old: "recognitionRef s = Some h \<longrightarrow> \<not> is_running h (eng (step (SelectLanguage l) s))"
    using assms(1) by (simp add: select_language_stops_old)
  have new: "supported (eng s) \<longrightarrow>
      current_running (handleLanguageChange_resume (render_of s) ?s1') \<and>
      isInitializedRef (handleLanguageChange_resume (render_of s) ?s1')"
  proof
    assume "supported (eng s)"
    then have "supported (eng ?s1')"
      using supported_step [of "SelectLanguage l" s] by simp
    from language_resume_running [OF p(1) this] show
      "current_running (handleLanguageChange_resume (render_of s) ?s1') \<and>
       isInitializedRef (handleLanguageChange_resume (render_of s) ?s1')"
      by simp
  qed
  show ?thesis
    using s r old new by (simp add: t spokenText_language_resume)
qed

theorem language_switch_while_listening_witness:
  "isListening listening_demo \<and> recognitionRef listening_demo \<noteq> None \<and>
   recognitionRef listening_demo = Some 0 \<and> supported (eng listening_demo) \<and>
   is_running 0 (eng listening_demo) \<and>
   \<not> isListening (step (SelectLanguage EsES) listening_demo) \<and>
   \<not> is_running 0 (eng (step (SelectLanguage EsES) listening_demo)) \<and>
   isStartingRef (run [SelectLanguage EsES, TimerElapsed 0] listening_demo) \<and>
   current_running (run [SelectLanguage EsES, TimerElapsed 0] listening_demo) \<and>
   language (run [SelectLanguage EsES, TimerElapsed 0] listening_demo) = EsES"
proof -
  have l: "isListening listening_demo" "recognitionRef listening_demo \<noteq> None"
    and t: "timers listening_demo = []"
    and o: "recognitionRef listening_demo = Some 0" "supported (eng listening_demo)"
      "is_running 0 (eng listening_demo)"
    by (simp_all add: listening_demo_def mount_def initial_state_def initializeRecognition_def
      stopRecognition_def construct_def demo_engine_def render_of_def toggleListening_begin_def
      timer_elapsed_def toggleListening_resume_def start_current_def engine_start_def
      is_running_def set_running_def Let_def)
  note w = language_switch_while_listening [OF l, of EsES 0, unfolded t list.size]
  show ?thesis
    using l o w by blast
qed

section \<open>Two clicks, one start\<close>

lemma isListening_toggle_begin_start:
  "\<not> isListening t \<Longrightarrow> \<not> isListening (toggleListening_begin (render_of t) t)"
  by (simp add: toggleListening_begin_def render_of_def Let_def isListening_initializeRecognition)

text \<open>
  Claim C3. While \<^verbatim>\<open>isStartingRef\<close> is set, a call of \<^verbatim>\<open>toggleListening\<close>, from
  whatever render, returns the state as it is: nothing is scheduled, nothing is reported,
  the engine is not touched. For the pair of calls on an idle session with a handle, the
  first call sets the guard and schedules one delay while the session is still not
  listening, the second changes nothing, and once that delay has elapsed no continuation of
  the pair is left. In every idle state that a component mounted on a supported engine can
  reach, the pair of calls and the elapsed delay end listening, with the instance in
  \<^verbatim>\<open>recognitionRef\<close> running: the session went from starting to listening once.
\<close>

theorem toggle_while_starting_is_dropped:
  "(isStartingRef s \<longrightarrow> toggleListening_begin r s = s \<and> step ClickToggle s = s) \<and>
   (recognitionRef t \<noteq> None \<and> \<not> isStartingRef t \<and> \<not> isListening t \<longrightarrow>
      isStartingRef (step ClickToggle t) \<and>
      \<not> isListening (step ClickToggle t) \<and>
      run [ClickToggle, ClickToggle] t = step ClickToggle t \<and>
      timers (run [ClickToggle, ClickToggle] t) = timers t @ [ToggleResume] \<and>
      timers (run [ClickToggle, ClickToggle, TimerElapsed (length (timers t))] t) = timers t) \<and>
   (supported e \<and> \<not> isStartingRef (run evs (mount e)) \<and> \<not> isListening (run evs (mount e)) \<longrightarrow>
      isListening (run [ClickToggle, ClickToggle,
          TimerElapsed (length (timers (run evs (mount e))))] (run evs (mount e))) \<and>
      started_on (language (run evs (mount e))) (run [ClickToggle, ClickToggle,
          TimerElapsed (length (timers (run evs (mount e))))] (run evs (mount e))) \<and>
      timers (run [ClickToggle, ClickToggle,
          TimerElapsed (length (timers (run evs (mount e))))] (run evs (mount e)))
        = timers (run evs (mount e)))"
proof -
  have drop: "isStartingRef (step ClickToggle t) \<and> \<not> isListening (step ClickToggle t) \<and>
      run [ClickToggle, ClickToggle] t = step ClickToggle t \<and>
      timers (run [ClickToggle, ClickToggle] t) = timers t @ [ToggleResume] \<and>
      timers (run [ClickToggle, ClickToggle, TimerElapsed (length (timers t))] t) = timers t"
    if a: "recognitionRef t \<noteq> None" "\<not> isStartingRef t" "\<not> isListening t" for t
  proof -
    let ?t1 = "step ClickToggle t"
    from a have st: "isStartingRef ?t1" and tm: "timers ?t1 = timers t @ [ToggleResume]"
      by (simp_all add: toggle_begin_starts render_of_def)
    from st have d: "step ClickToggle ?t1 = ?t1"
      by (simp add: toggle_begin_guard)
    have nl: "\<not> isListening ?t1"
      using a(3) by (simp add: isListening_toggle_begin_start)
    have t3: "timers (run [ClickToggle, ClickToggle, TimerElapsed (length (timers t))] t) = timers t"
      using d tm by (simp add: timer_elapsed_def timers_toggle_resume)
    show ?thesis
      using st nl d tm t3 by simp
  qed
  have one: "isListening (run [ClickToggle, ClickToggle, TimerElapsed (length (timers u))] u) \<and>
      started_on (language u) (run [ClickToggle, ClickToggle, TimerElapsed (length (timers u))] u) \<and>
      timers (run [ClickToggle, ClickToggle, TimerElapsed (length (timers u))] u) = timers u"
    if u: "u = run evs (mount e)" and a: "supported e" "\<not> isStartingRef u" "\<not> isListening u" for u
  proof -
    have inv: "session_inv u"
      unfolding u by (intro session_inv_run session_inv_mount)
    have sup: "supported (eng u)"
      using a(1) by (simp add: u supported_run supported_mount)
    have ref: "recognitionRef u \<noteq> None"
      unfolding u using a(1) by (intro recognitionRef_run recognitionRef_mount)
    have b: "isInitializedRef u \<longrightarrow> bound_idle (language u) u"
      using inv a(2,3) by (simp add: session_inv_def)
    note g = toggle_starts_bound [OF ref a(2) a(3) sup refl b]
    from drop [OF ref a(2) a(3)] have
      d: "run [ClickToggle, ClickToggle] u = step ClickToggle u"
      and t3: "timers (run [ClickToggle, ClickToggle, TimerElapsed (length (timers u))] u) = timers u"
      by blast+
    have eq: "run [ClickToggle, ClickToggle, TimerElapsed (length (timers u))] u
        = run [ClickToggle, TimerElapsed (length (timers u))] u"
      using d by simp
    show ?thesis
      using g t3 unfolding eq by simp
  qed
  show ?thesis
  proof (intro conjI impI)
    assume "isStartingRef s"
    then show "toggleListening_begin r s = s" "step ClickToggle s = s"
      by (simp_all add: toggle_begin_guard)
  next
    assume a: "recognitionRef t \<noteq> None \<and> \<not> isStartingRef t \<and> \<not> isListening t"
    with drop [of t] show "isStartingRef (step ClickToggle t)"
      "\<not> isListening (step ClickToggle t)"
      "run [ClickToggle, ClickToggle] t = step ClickToggle t"
      "timers (run [ClickToggle, ClickToggle] t) = timers t @ [ToggleResume]"
      "timers (run [ClickToggle, ClickToggle, TimerElapsed (length (timers t))] t) = timers t"
      by blast+
  next
    assume a: "supported e \<and> \<not> isStartingRef (run evs (mount e)) \<and> \<not> isListening (run evs (mount e))"
    with one [OF refl] show
      "isListening (run [ClickToggle, ClickToggle,
          TimerElapsed (length (timers (run evs (mount e))))] (run evs (mount e)))"
      "started_on (language (run evs (mount e))) (run [ClickToggle, ClickToggle,
          TimerElapsed (length (timers (run evs (mount e))))] (run evs (mount e)))"
      "timers (run [ClickToggle, ClickToggle,
          TimerElapsed (length (timers (run evs (mount e))))] (run evs (mount e)))
        = timers (run evs (mount e))"
      by blast+
  qed
qed

theorem toggle_while_starting_is_dropped_witness:
  "recognitionRef (mount demo_engine) \<noteq> None \<and> supported demo_engine \<and>
   \<not> isStartingRef (mount demo_engine) \<and> \<not> isListening (mount demo_engine) \<and>
   isStartingRef (step ClickToggle (mount demo_engine)) \<and>
   \<not> isListening (step ClickToggle (mount demo_engine)) \<and>
   step ClickToggle (step ClickToggle (mount demo_engine)) = step ClickToggle (mount demo_engine) \<and>
   run [ClickToggle, ClickToggle] (mount demo_engine) = step ClickToggle (mount demo_engine) \<and>
   timers (run [ClickToggle, ClickToggle] (mount demo_engine)) = [ToggleResume] \<and>
   timers (run [ClickToggle, ClickToggle, TimerElapsed 0] (mount demo_engine)) = [] \<and>
   isListening (run [ClickToggle, ClickToggle, TimerElapsed 0] (mount demo_engine)) \<and>
   started_on EnUS (run [ClickToggle, ClickToggle, TimerElapsed 0] (mount demo_engine))"
proof -
  have m: "recognitionRef (mount demo_engine) \<noteq> None" "\<not> isStartingRef (mount demo_engine)"
    "\<not> isListening (mount demo_engine)" "supported demo_engine"
    and lg: "language (mount demo_engine) = EnUS"
    by (simp_all add: mount_def initial_state_def initializeRecognition_def stopRecognition_def
        construct_def demo_engine_def render_of_def)
  have t: "timers (mount demo_engine) = []"
    by (simp add: mount_def initial_state_def timers_initializeRecognition)
  have r: "run [] (mount demo_engine) = mount demo_engine" by simp
  note w = toggle_while_starting_is_dropped
      [of "step ClickToggle (mount demo_engine)" "render_of (mount demo_engine)"
          "mount demo_engine" demo_engine "[]", unfolded r t lg append_Nil list.size]
  show ?thesis
    using m w by blast
qed

end
